theory Spec2Isabelle
  imports Main "HOL-Library.Word"
begin

section \<open>The taskbar configuration blob in the registry\<close>

text \<open>
  \<^verbatim>\<open>ToggleTaskbarAutohide.cpp\<close> keeps no state of its own about the taskbar: the
  visibility mode is one byte, at offset \<open>0x08\<close>, of the binary value \<open>Settings\<close> under
  one of two keys of the current user's hive. The functions \<open>GetCurrentTaskbarSetting\<close>
  and \<open>ToggleTaskbarSetting\<close> reach it through three calls of the registry API. The
  registry is modelled as far as these calls can observe it.
\<close>

type_synonym BYTE = "8 word"

definition TASKBAR_ALWAYS_VISIBLE :: BYTE where
  "TASKBAR_ALWAYS_VISIBLE = 0x02"

definition TASKBAR_AUTOHIDE :: BYTE where
  "TASKBAR_AUTOHIDE = 0x03"

text \<open>
  The two key paths of the source, both under
  \<^verbatim>\<open>HKCU\SOFTWARE\Microsoft\Windows\CurrentVersion\Explorer\<close>, named by their last
  component.
\<close>

datatype reg_path = StuckRects3 | StuckRects2

datatype REGSAM = KEY_READ | KEY_WRITE

datatype LSTATUS =
  ERROR_SUCCESS | ERROR_FILE_NOT_FOUND | ERROR_ACCESS_DENIED | ERROR_MORE_DATA

datatype reg_type = REG_BINARY | REG_OTHER nat

text \<open>
  A key: the access rights an open by the current user is granted, the value named
  \<open>Settings\<close> (its type and its bytes) when there is one, and whether the key accepts a
  \<open>RegSetValueExW\<close> (a set can fail on a handle opened for writing, for instance on a key
  deleted meanwhile).
\<close>

record reg_key =
  granted :: "REGSAM set"
  Settings :: "(reg_type \<times> BYTE list) option"
  settable :: bool

type_synonym registry = "reg_path \<Rightarrow> reg_key option"

text \<open>
  \<open>RegOpenKeyExW\<close>: a missing key is \<open>ERROR_FILE_NOT_FOUND\<close>, a key that does not grant
  every right asked for is \<open>ERROR_ACCESS_DENIED\<close>. On success the handle \<open>hKey\<close> stands
  for the path that was opened, so the model passes the path where the source passes
  \<open>hKey\<close>.
\<close>

definition RegOpenKeyExW :: "registry \<Rightarrow> reg_path \<Rightarrow> REGSAM set \<Rightarrow> LSTATUS" where
  "RegOpenKeyExW reg p samDesired =
     (case reg p of
        None \<Rightarrow> ERROR_FILE_NOT_FOUND
      | Some k \<Rightarrow> if samDesired \<subseteq> granted k then ERROR_SUCCESS else ERROR_ACCESS_DENIED)"

text \<open>
  \<open>RegQueryValueExW\<close> on the value \<open>Settings\<close>, with a caller's buffer \<open>lpData\<close> of
  \<open>cbData\<close> bytes: a missing value is \<open>ERROR_FILE_NOT_FOUND\<close>; data longer than the
  buffer is \<open>ERROR_MORE_DATA\<close>, with the size needed stored in \<open>cbData\<close> (the source
  does not look at the buffer then, and the model leaves it as it was); otherwise the
  data is copied over the front of the buffer, the bytes behind it keep what they held,
  and \<open>cbData\<close> becomes the data's length. The type of the value is not checked, as the
  source passes no type to compare. The result is the status, the buffer and \<open>cbData\<close>.
\<close>

definition RegQueryValueExW ::
    "registry \<Rightarrow> reg_path \<Rightarrow> BYTE list \<Rightarrow> nat \<Rightarrow> LSTATUS \<times> BYTE list \<times> nat" where
  "RegQueryValueExW reg hKey lpData cbData =
     (case reg hKey of
        None \<Rightarrow> (ERROR_FILE_NOT_FOUND, lpData, cbData)
      | Some k \<Rightarrow>
          (case Settings k of
             None \<Rightarrow> (ERROR_FILE_NOT_FOUND, lpData, cbData)
           | Some (ty, bytes) \<Rightarrow>
               if cbData < length bytes then (ERROR_MORE_DATA, lpData, length bytes)
               else (ERROR_SUCCESS, bytes @ drop (length bytes) lpData, length bytes)))"

text \<open>
  \<open>RegSetValueExW\<close> on the value \<open>Settings\<close>: the first \<open>cbData\<close> bytes of the buffer
  replace the value, with the type given, when the key accepts it.
\<close>

definition RegSetValueExW ::
    "registry \<Rightarrow> reg_path \<Rightarrow> reg_type \<Rightarrow> BYTE list \<Rightarrow> nat \<Rightarrow> LSTATUS \<times> registry" where
  "RegSetValueExW reg hKey dwType lpData cbData =
     (case reg hKey of
        None \<Rightarrow> (ERROR_FILE_NOT_FOUND, reg)
      | Some k \<Rightarrow>
          if settable k
          then (ERROR_SUCCESS, reg(hKey \<mapsto> k\<lparr>Settings := Some (dwType, take cbData lpData)\<rparr>))
          else (ERROR_ACCESS_DENIED, reg))"

text \<open>
  The calls a run makes, in order: what an observer of the process sees of it. A
  \<open>bool\<close> is all \<open>ToggleTaskbarSetting\<close> returns, so the place where a run gave up is
  read off its calls.
\<close>

datatype reg_call =
  Open_Key reg_path "REGSAM set"
| Query_Value reg_path
| Set_Value reg_path reg_type "BYTE list"
| Close_Key reg_path
| Broadcast_SettingChange

text \<open>
  \<open>BYTE settings[64]\<close> is a local array that is not initialised: it holds whatever the
  stack held, which is a parameter \<open>stack\<close> of the model (the byte at each index).
\<close>

definition settings_buffer :: "(nat \<Rightarrow> BYTE) \<Rightarrow> BYTE list" where
  "settings_buffer stack = map stack [0..<64]"

subsection \<open>\<open>GetCurrentTaskbarSetting\<close>\<close>

definition GetCurrentTaskbarSetting :: "(nat \<Rightarrow> BYTE) \<Rightarrow> registry \<Rightarrow> BYTE" where
  "GetCurrentTaskbarSetting stack reg =
     (let query = (\<lambda>hKey.
            case RegQueryValueExW reg hKey (settings_buffer stack) 64 of
              (result, settings, settingsSize) \<Rightarrow>
                if result \<noteq> ERROR_SUCCESS then TASKBAR_ALWAYS_VISIBLE
                else settings ! 0x08)
      in if RegOpenKeyExW reg StuckRects3 {KEY_READ} \<noteq> ERROR_SUCCESS
         then (if RegOpenKeyExW reg StuckRects2 {KEY_READ} \<noteq> ERROR_SUCCESS
               then TASKBAR_ALWAYS_VISIBLE
               else query StuckRects2)
         else query StuckRects3)"

subsection \<open>\<open>ToggleTaskbarSetting\<close>\<close>

record toggle_result =
  returned :: bool
  reg_after :: registry
  reg_calls :: "reg_call list"

text \<open>
  Lines 357 to 373, which run on whichever key was opened; \<open>calls\<close> are the calls made
  so far.
\<close>

definition toggle_opened ::
    "(nat \<Rightarrow> BYTE) \<Rightarrow> registry \<Rightarrow> reg_path \<Rightarrow> reg_call list \<Rightarrow> toggle_result" where
  "toggle_opened stack reg hKey calls =
     (case RegQueryValueExW reg hKey (settings_buffer stack) 64 of
        (result, settings, settingsSize) \<Rightarrow>
          if result \<noteq> ERROR_SUCCESS
          then \<lparr>returned = False, reg_after = reg,
                reg_calls = calls @ [Query_Value hKey, Close_Key hKey]\<rparr>
          else
            let settings' = settings[0x08 :=
                  (if settings ! 0x08 = TASKBAR_ALWAYS_VISIBLE
                   then TASKBAR_AUTOHIDE else TASKBAR_ALWAYS_VISIBLE)]
            in (case RegSetValueExW reg hKey REG_BINARY settings' settingsSize of
                  (result', reg') \<Rightarrow>
                    \<lparr>returned = (result' = ERROR_SUCCESS), reg_after = reg',
                     reg_calls = calls @
                       [Query_Value hKey,
                        Set_Value hKey REG_BINARY (take settingsSize settings'),
                        Close_Key hKey, Broadcast_SettingChange]\<rparr>))"

definition ToggleTaskbarSetting :: "(nat \<Rightarrow> BYTE) \<Rightarrow> registry \<Rightarrow> toggle_result" where
  "ToggleTaskbarSetting stack reg =
     (if RegOpenKeyExW reg StuckRects3 {KEY_READ, KEY_WRITE} \<noteq> ERROR_SUCCESS
      then (if RegOpenKeyExW reg StuckRects2 {KEY_READ, KEY_WRITE} \<noteq> ERROR_SUCCESS
            then \<lparr>returned = False, reg_after = reg,
                  reg_calls = [Open_Key StuckRects3 {KEY_READ, KEY_WRITE},
                               Open_Key StuckRects2 {KEY_READ, KEY_WRITE}]\<rparr>
            else toggle_opened stack reg StuckRects2
                   [Open_Key StuckRects3 {KEY_READ, KEY_WRITE},
                    Open_Key StuckRects2 {KEY_READ, KEY_WRITE}])
      else toggle_opened stack reg StuckRects3 [Open_Key StuckRects3 {KEY_READ, KEY_WRITE}])"

text \<open>
  Two notions the statements below use. \<open>config_key\<close> is the key the open sequence of
  both functions ends on, for the rights asked; \<open>stored\<close> is the value \<open>Settings\<close> held
  under a path.
\<close>

definition config_key :: "registry \<Rightarrow> REGSAM set \<Rightarrow> reg_path option" where
  "config_key reg sam =
     (if RegOpenKeyExW reg StuckRects3 sam = ERROR_SUCCESS then Some StuckRects3
      else if RegOpenKeyExW reg StuckRects2 sam = ERROR_SUCCESS then Some StuckRects2
      else None)"

definition stored :: "registry \<Rightarrow> reg_path \<Rightarrow> (reg_type \<times> BYTE list) option" where
  "stored reg p = (case reg p of None \<Rightarrow> None | Some k \<Rightarrow> Settings k)"

text \<open>The opens \<open>ToggleTaskbarSetting\<close> has made when it holds the key \<open>p\<close>.\<close>

definition toggle_opens :: "reg_path \<Rightarrow> reg_call list" where
  "toggle_opens p =
     (case p of
        StuckRects3 \<Rightarrow> [Open_Key StuckRects3 {KEY_READ, KEY_WRITE}]
      | StuckRects2 \<Rightarrow> [Open_Key StuckRects3 {KEY_READ, KEY_WRITE},
                        Open_Key StuckRects2 {KEY_READ, KEY_WRITE}])"

text \<open>The mode byte of the value stored under a path, when the value reaches that far.\<close>

definition mode_byte :: "registry \<Rightarrow> reg_path \<Rightarrow> BYTE option" where
  "mode_byte reg p =
     (case stored reg p of
        None \<Rightarrow> None
      | Some (ty, bytes) \<Rightarrow> if 0x08 < length bytes then Some (bytes ! 0x08) else None)"

subsection \<open>Concrete registries\<close>

text \<open>
  A blob laid out as the source's structure map says: the version \<open>0x30\<close>, a flags word,
  the mode byte \<open>m\<close> at offset \<open>0x08\<close>, 64 bytes in all.
\<close>

definition example_blob :: "BYTE \<Rightarrow> BYTE list" where
  "example_blob m = [0x30, 0, 0, 0, 3, 0, 0, 0, m, 0, 0, 0] @ replicate 52 0"

definition example_key :: "BYTE list \<Rightarrow> reg_key" where
  "example_key bytes =
     \<lparr>granted = {KEY_READ, KEY_WRITE}, Settings = Some (REG_BINARY, bytes), settable = True\<rparr>"

text \<open>The current key alone, holding the bytes given, open to reading and writing.\<close>

definition example_registry :: "BYTE list \<Rightarrow> registry" where
  "example_registry bytes = (\<lambda>p. None)(StuckRects3 \<mapsto> example_key bytes)"

text \<open>Neither key exists.\<close>

definition no_registry :: registry where
  "no_registry = (\<lambda>p. None)"

text \<open>Only the legacy key exists, read-only and with no value \<open>Settings\<close>.\<close>

definition legacy_registry :: registry where
  "legacy_registry =
     (\<lambda>p. None)(StuckRects2 \<mapsto> \<lparr>granted = {KEY_READ}, Settings = None, settable = False\<rparr>)"

definition zero_stack :: "nat \<Rightarrow> BYTE" where
  "zero_stack i = 0"

section \<open>Folder windows: capture and restore\<close>

text \<open>
  \<open>GetOpenExplorerWindows\<close> and \<open>RestoreExplorerWindows\<close> see the desktop through window
  handles. A handle is a number; where the source holds \<open>NULL\<close> the model holds \<open>None\<close>.
  \<open>DWORD\<close> and \<open>UINT\<close> are 32-bit words. The coordinates of a \<open>RECT\<close> are \<open>LONG\<close>, 32 bits
  in two's complement (\<open>sint\<close> reads the value); the differences that \<open>MoveWindow\<close> is
  given wrap around as the compiled subtraction does.
\<close>

type_synonym HWND = nat

type_synonym DWORD = "32 word"

type_synonym LONG = "32 word"

record RECT =
  left :: LONG
  top' :: LONG
  right :: LONG
  bottom :: LONG

text \<open>The show commands the source names, with their values in \<^verbatim>\<open>WinUser.h\<close>.\<close>

definition SW_NORMAL :: DWORD where
  "SW_NORMAL = 1"

definition SW_MAXIMIZE :: DWORD where
  "SW_MAXIMIZE = 3"

definition SW_MINIMIZE :: DWORD where
  "SW_MINIMIZE = 6"

record WINDOWPLACEMENT =
  showCmd :: DWORD
  rcNormalPosition :: RECT

record ExplorerWindow =
  path :: string
  position :: RECT
  placement :: WINDOWPLACEMENT
  hwnd :: HWND
  focusedHwnd :: "HWND option"
  zOrder :: DWORD

subsection \<open>The desktop\<close>

text \<open>
  What the window manager holds of a top-level window, as far as the two functions ask:
  its handle, its class name and whether \<open>IsWindowVisible\<close> answers true. The desktop is
  the list of top-level windows in Z-order, the front window first: the order in which
  \<open>GetTopWindow\<close> and \<open>GetNextWindow\<close> walk them and \<open>EnumWindows\<close> calls back.
\<close>

record window =
  handle :: HWND
  className :: string
  visible :: bool

text \<open>
  One item of the \<open>IShellWindows\<close> collection: the window of its browser, and the folder
  path that the chain of queries from \<open>IWebBrowserApp\<close> to \<open>SHGetPathFromIDList\<close> yields;
  \<open>None\<close> when a step of the chain fails. Several items may share a window.
\<close>

record shell_item =
  browserHwnd :: HWND
  curFolder :: "string option"

record desktop =
  zorder :: "window list"
  shellWindows :: "shell_item list"

text \<open>The answers of the other queries of the capture.\<close>

record gui_env =
  foregroundWindow :: "HWND option"
  focusWindow :: "HWND option"
  isChild :: "HWND \<Rightarrow> HWND \<Rightarrow> bool"
  windowPlacement :: "HWND \<Rightarrow> WINDOWPLACEMENT"

subsection \<open>\<open>GetOpenExplorerWindows\<close>\<close>

text \<open>
  \<open>std::map<DWORD, ExplorerWindow>\<close> is kept as the list of its entries in ascending
  order of key, the order in which the map is iterated; \<open>map_assign m key v\<close> is
  \<open>m[key] = v\<close>.
\<close>

fun map_assign :: "(DWORD \<times> 'v) list \<Rightarrow> DWORD \<Rightarrow> 'v \<Rightarrow> (DWORD \<times> 'v) list" where
  "map_assign [] key v = [(key, v)]"
| "map_assign ((k, u) # m) key v =
     (if key = k then (key, v) # m
      else if key < k then (key, v) # (k, u) # m
      else (k, u) # map_assign m key v)"

text \<open>
  The loop over the shell's items, lines 452 to 496: the first item of the window whose
  chain of queries succeeds gives the path, and the loop breaks there.
\<close>

definition folder_of :: "shell_item list \<Rightarrow> HWND \<Rightarrow> string option" where
  "folder_of items h =
     (case find (\<lambda>it. browserHwnd it = h \<and> curFolder it \<noteq> None) items of
        None \<Rightarrow> None
      | Some it \<Rightarrow> curFolder it)"

text \<open>The \<open>ExplorerWindow\<close> built for a window, at the count \<open>z\<close> and with the path \<open>p\<close>.\<close>

definition capture_window :: "gui_env \<Rightarrow> window \<Rightarrow> DWORD \<Rightarrow> string \<Rightarrow> ExplorerWindow" where
  "capture_window env w z p =
     \<lparr>path = p,
      position = rcNormalPosition (windowPlacement env (handle w)),
      placement = windowPlacement env (handle w),
      hwnd = handle w,
      focusedHwnd =
        (if Some (handle w) = foregroundWindow env then Some (handle w)
         else (case focusWindow env of
                 None \<Rightarrow> None
               | Some childFocus \<Rightarrow>
                   if isChild env (handle w) childFocus then Some childFocus else None)),
      zOrder = z\<rparr>"

text \<open>
  The \<open>while (hwnd)\<close> loop: every top-level window advances the counter \<open>zOrder\<close>, a
  \<open>DWORD\<close> that wraps; a visible window of class \<open>CabinetWClass\<close> whose path resolves is
  entered in the map under the current count.
\<close>

fun capture_loop ::
    "gui_env \<Rightarrow> shell_item list \<Rightarrow> window list \<Rightarrow> DWORD \<Rightarrow>
     (DWORD \<times> ExplorerWindow) list \<Rightarrow> (DWORD \<times> ExplorerWindow) list" where
  "capture_loop env items [] z windowsByZOrder = windowsByZOrder"
| "capture_loop env items (w # ws) z windowsByZOrder =
     capture_loop env items ws (z + 1)
       (if visible w \<and> className w = ''CabinetWClass''
        then (case folder_of items (handle w) of
                None \<Rightarrow> windowsByZOrder
              | Some p \<Rightarrow> map_assign windowsByZOrder z (capture_window env w z p))
        else windowsByZOrder)"

definition GetOpenExplorerWindows :: "gui_env \<Rightarrow> desktop \<Rightarrow> ExplorerWindow list" where
  "GetOpenExplorerWindows env d =
     map snd (capture_loop env (shellWindows d) (zorder d) 0 [])"

subsection \<open>\<open>RestoreExplorerWindows\<close>\<close>

text \<open>
  \<open>_wcsicmp\<close> compares after lowering each character; in the \<open>C\<close> locale that folds the
  letters \<open>A\<close> to \<open>Z\<close> only. \<open>wcsicmp_eq a b\<close> is \<open>_wcsicmp(a, b) == 0\<close>.
\<close>

definition towlower :: "char \<Rightarrow> char" where
  "towlower c =
     (let n = (of_char c :: nat) in if 65 \<le> n \<and> n \<le> 90 then char_of (n + 32) else c)"

definition wcsicmp_eq :: "string \<Rightarrow> string \<Rightarrow> bool" where
  "wcsicmp_eq a b = (map towlower a = map towlower b)"

text \<open>
  The callback of \<open>EnumWindows\<close>, lines 600 to 663. For a visible window of class
  \<open>CabinetWClass\<close> it goes through the shell's items: an item of this window whose path
  equals the target, case ignored, ends the enumeration with this window as the result;
  an item whose path differs does not end the loop over the items.
\<close>

definition shows_folder :: "shell_item list \<Rightarrow> HWND \<Rightarrow> string \<Rightarrow> bool" where
  "shows_folder items h targetPath =
     list_ex (\<lambda>it. browserHwnd it = h \<and>
                (case curFolder it of None \<Rightarrow> False | Some p \<Rightarrow> wcsicmp_eq p targetPath))
       items"

definition find_restored :: "desktop \<Rightarrow> string \<Rightarrow> HWND option" where
  "find_restored d targetPath =
     map_option handle
       (find (\<lambda>w. className w = ''CabinetWClass'' \<and> visible w \<and>
                  shows_folder (shellWindows d) (handle w) targetPath)
          (zorder d))"

datatype insert_after = HWND_TOP | HWND_BOTTOM

text \<open>The calls by which the restore acts on the desktop, in the order made.\<close>

datatype gui_call =
  ShellExecuteW_open string
| ShowWindow HWND DWORD
| MoveWindow HWND LONG LONG LONG LONG
| SetWindowPos HWND insert_after

text \<open>
  The effect of \<open>SetWindowPos\<close> with \<open>SWP_NOMOVE | SWP_NOSIZE | SWP_NOACTIVATE\<close> on the
  Z-order: the window moves to the front of the list or to its end, the others keep
  their order. No window of the model is a topmost one. \<open>ShowWindow\<close> and \<open>MoveWindow\<close>
  are recorded as calls; they act on the window they are given, which \<open>SetWindowPos\<close>
  then places, so the order of the other windows is the same with and without them.
\<close>

definition restack :: "HWND \<Rightarrow> insert_after \<Rightarrow> window list \<Rightarrow> window list" where
  "restack h hWndInsertAfter zs =
     (case find (\<lambda>w. handle w = h) zs of
        None \<Rightarrow> zs
      | Some w \<Rightarrow>
          (case hWndInsertAfter of
             HWND_TOP \<Rightarrow> w # remove1 w zs
           | HWND_BOTTOM \<Rightarrow> remove1 w zs @ [w]))"

record restore_state =
  desk :: desktop
  openedPaths :: "string \<rightharpoonup> HWND"
  gui_calls :: "gui_call list"

text \<open>Lines 667 to 688: the calls made on a window that was found.\<close>

definition place_window :: "ExplorerWindow \<Rightarrow> HWND \<Rightarrow> gui_call list" where
  "place_window window newHwnd =
     [ShowWindow newHwnd SW_NORMAL,
      MoveWindow newHwnd (left (position window)) (top' (position window))
        (right (position window) - left (position window))
        (bottom (position window) - top' (position window))] @
     (if showCmd (placement window) = SW_MAXIMIZE then [ShowWindow newHwnd SW_MAXIMIZE]
      else if showCmd (placement window) = SW_MINIMIZE then [ShowWindow newHwnd SW_MINIMIZE]
      else []) @
     [SetWindowPos newHwnd
        (if showCmd (placement window) = SW_MINIMIZE then HWND_BOTTOM else HWND_TOP)]"

text \<open>
  One round of the loop. What the shell does with a request to open a folder is not the
  program's: \<open>relaunch p d\<close> is the desktop as it stands when \<open>Sleep(500)\<close> returns after
  the request for \<open>p\<close> was made on the desktop \<open>d\<close>, and it is a parameter. Within the
  rest of a round the desktop changes by the round's own calls only.
\<close>

definition restore_window ::
    "(string \<Rightarrow> desktop \<Rightarrow> desktop) \<Rightarrow> ExplorerWindow \<Rightarrow> restore_state \<Rightarrow> restore_state" where
  "restore_window relaunch window st =
     (if path window \<noteq> []
      then
        let d = relaunch (path window) (desk st);
            calls = gui_calls st @ [ShellExecuteW_open (path window)]
        in (case find_restored d (path window) of
              None \<Rightarrow> st\<lparr>desk := d, gui_calls := calls\<rparr>
            | Some newHwnd \<Rightarrow>
                \<lparr>desk = d\<lparr>zorder :=
                    restack newHwnd
                      (if showCmd (placement window) = SW_MINIMIZE then HWND_BOTTOM else HWND_TOP)
                      (zorder d)\<rparr>,
                 openedPaths = (openedPaths st)(path window \<mapsto> newHwnd),
                 gui_calls = calls @ place_window window newHwnd\<rparr>)
      else st)"

text \<open>
  The loop runs from \<open>windows.rbegin()\<close> to \<open>windows.rend()\<close>: the last element of the
  vector first, which is what \<open>foldr\<close> does.
\<close>

definition restore_loop ::
    "(string \<Rightarrow> desktop \<Rightarrow> desktop) \<Rightarrow> ExplorerWindow list \<Rightarrow> restore_state \<Rightarrow> restore_state" where
  "restore_loop relaunch windows st = foldr (restore_window relaunch) windows st"

definition RestoreExplorerWindows ::
    "(string \<Rightarrow> desktop \<Rightarrow> desktop) \<Rightarrow> ExplorerWindow list \<Rightarrow> desktop \<Rightarrow> restore_state" where
  "RestoreExplorerWindows relaunch windows d =
     restore_loop relaunch windows \<lparr>desk = d, openedPaths = Map.empty, gui_calls = []\<rparr>"


text \<open>The windows restacked and where to, read off the calls.\<close>

fun restacks :: "gui_call list \<Rightarrow> (HWND \<times> insert_after) list" where
  "restacks [] = []"
| "restacks (SetWindowPos h hWndInsertAfter # cs) = (h, hWndInsertAfter) # restacks cs"
| "restacks (c # cs) = restacks cs"


text \<open>
  An entry of the capture's map sits at its index: its key is a position of the Z-order,
  the window there is the one captured, and the entry's \<open>zOrder\<close> is the key.
\<close>

definition at_index :: "window list \<Rightarrow> DWORD \<times> ExplorerWindow \<Rightarrow> bool" where
  "at_index zs kv =
     (unat (fst kv) < length zs \<and> handle (zs ! unat (fst kv)) = hwnd (snd kv) \<and>
      zOrder (snd kv) = fst kv)"

subsection \<open>A concrete desktop\<close>

definition folder_window :: "HWND \<Rightarrow> window" where
  "folder_window h = \<lparr>handle = h, className = ''CabinetWClass'', visible = True\<rparr>"

text \<open>
  An editor in front, then the folder windows 30, 20 and 10 showing \<open>C:/C\<close>, \<open>C:/B\<close> and
  \<open>C:/A\<close>, and between them a hidden window of the folder class.
\<close>

definition example_desktop :: desktop where
  "example_desktop =
     \<lparr>zorder = [\<lparr>handle = 7, className = ''Notepad'', visible = True\<rparr>,
                folder_window 30, folder_window 20,
                \<lparr>handle = 8, className = ''CabinetWClass'', visible = False\<rparr>,
                folder_window 10],
      shellWindows = [\<lparr>browserHwnd = 10, curFolder = Some ''C:/A''\<rparr>,
                      \<lparr>browserHwnd = 20, curFolder = None\<rparr>,
                      \<lparr>browserHwnd = 20, curFolder = Some ''C:/B''\<rparr>,
                      \<lparr>browserHwnd = 30, curFolder = Some ''C:/C''\<rparr>]\<rparr>"

definition example_placement :: WINDOWPLACEMENT where
  "example_placement =
     \<lparr>showCmd = SW_NORMAL, rcNormalPosition = \<lparr>left = 0, top' = 0, right = 800, bottom = 600\<rparr>\<rparr>"

definition example_env :: gui_env where
  "example_env =
     \<lparr>foregroundWindow = Some 7, focusWindow = None, isChild = (\<lambda>p c. False),
      windowPlacement = (\<lambda>h. example_placement)\<rparr>"

text \<open>
  A shell that opens, for every request, a new folder window behind all the others, and
  reports its path in lower case.
\<close>

definition example_relaunch :: "string \<Rightarrow> desktop \<Rightarrow> desktop" where
  "example_relaunch p d =
     \<lparr>zorder = zorder d @ [folder_window (100 + length (zorder d))],
      shellWindows = shellWindows d @
        [\<lparr>browserHwnd = 100 + length (zorder d), curFolder = Some (map towlower p)\<rparr>]\<rparr>"


text \<open>The desktop after the shell was restarted: the folder windows are gone.\<close>

definition restarted_desktop :: desktop where
  "restarted_desktop =
     \<lparr>zorder = [\<lparr>handle = 7, className = ''Notepad'', visible = True\<rparr>], shellWindows = []\<rparr>"

definition captured_A :: ExplorerWindow where
  "captured_A = capture_window example_env (folder_window 10) 4 ''C:/A''"

definition captured_B :: ExplorerWindow where
  "captured_B = capture_window example_env (folder_window 20) 2 ''C:/B''"

definition captured_C :: ExplorerWindow where
  "captured_C = capture_window example_env (folder_window 30) 1 ''C:/C''"

section \<open>Ending the shell's processes\<close>

text \<open>
  \<open>KillExplorerProcess\<close> posts \<open>WM_CLOSE\<close> to every window of class \<open>CabinetWClass\<close>, then
  walks a snapshot of the processes. \<open>OpenProcess\<close> says for which process ids a handle
  with \<open>PROCESS_TERMINATE\<close> is granted. The result lists the windows asked to close, the
  processes the loop tried to open, and the processes \<open>TerminateProcess\<close> was called on.
\<close>

record PROCESSENTRY32 =
  th32ProcessID :: DWORD
  szExeFile :: string

record kill_result =
  close_requests :: "HWND list"
  attempted :: "DWORD list"
  terminated :: "DWORD list"

fun terminate_loop ::
    "DWORD \<Rightarrow> (DWORD \<Rightarrow> bool) \<Rightarrow> PROCESSENTRY32 list \<Rightarrow> DWORD list \<times> DWORD list" where
  "terminate_loop ourProcessId OpenProcess [] = ([], [])"
| "terminate_loop ourProcessId OpenProcess (pEntry # entries) =
     (case terminate_loop ourProcessId OpenProcess entries of
        (opens, kills) \<Rightarrow>
          if szExeFile pEntry = ''explorer.exe'' \<and> th32ProcessID pEntry \<noteq> ourProcessId
          then (th32ProcessID pEntry # opens,
                if OpenProcess (th32ProcessID pEntry) then th32ProcessID pEntry # kills
                else kills)
          else (opens, kills))"

definition KillExplorerProcess ::
    "window list \<Rightarrow> DWORD \<Rightarrow> (DWORD \<Rightarrow> bool) \<Rightarrow> PROCESSENTRY32 list \<Rightarrow> kill_result" where
  "KillExplorerProcess windows ourProcessId OpenProcess snapshot =
     \<lparr>close_requests = map handle (filter (\<lambda>w. className w = ''CabinetWClass'') windows),
      attempted = fst (terminate_loop ourProcessId OpenProcess snapshot),
      terminated = snd (terminate_loop ourProcessId OpenProcess snapshot)\<rparr>"

definition example_snapshot :: "PROCESSENTRY32 list" where
  "example_snapshot =
     [\<lparr>th32ProcessID = 4, szExeFile = ''System''\<rparr>,
      \<lparr>th32ProcessID = 1200, szExeFile = ''explorer.exe''\<rparr>,
      \<lparr>th32ProcessID = 3000, szExeFile = ''explorer.exe''\<rparr>,
      \<lparr>th32ProcessID = 4000, szExeFile = ''explorer.exe''\<rparr>,
      \<lparr>th32ProcessID = 5000, szExeFile = ''notepad.exe''\<rparr>]"

section \<open>The watchdog thread\<close>

text \<open>
  \<open>ExecuteToggleAction\<close> runs on the thread of the message loop, one toggle after the
  other; \<open>WatchdogThreadProc\<close> runs on threads of its own. They share the globals
  \<open>g_isRestartingExplorer\<close> and \<open>g_watchdogThread\<close>. The model interleaves the threads
  statement by statement, each read and write of a global being one step.

  A watchdog thread is at one of its statements: the \<open>Sleep\<close> with the \<open>PostMessage\<close>
  that follows it (lines 101 to 105), the reset of the flag (line 106), the reset of
  the handle (line 107), and \<open>return 0\<close> (line 108), with which the thread ends and is
  \<open>Finished\<close>.
\<close>

datatype wd_pc = AtSleep | AtClearFlag | AtClearHandle | AtReturn | Finished

text \<open>
  The main thread, as far as the watchdog is concerned: between toggles (or in the part
  of a toggle behind line 128), at the guard of line 126 with line 125 done, at the call
  of \<open>CreateThread\<close>, and at the assignment of its result to \<open>g_watchdogThread\<close>.
\<close>

datatype main_pc = Idle | AtGuard | AtCreate | AtAssign "nat option"

text \<open>
  A thread's handle is its index in the list of the watchdog threads created so far;
  the list holds the statement each of them is at.
\<close>

record tray_state =
  g_trayMode :: bool
  g_isRestartingExplorer :: bool
  g_watchdogThread :: "nat option"
  main_thread :: main_pc
  watchdogs :: "wd_pc list"

text \<open>
  A schedule names, step by step, the thread that runs its next statement; for the main
  thread it also says whether \<open>CreateThread\<close> succeeds, should that be the statement.
  Between toggles the main thread may also handle the \<open>WM_TIMER\<close> message of timer 1234,
  the other place where \<open>g_isRestartingExplorer\<close> is reset (line 765).
\<close>

datatype event = Main_Thread bool | Watchdog_Thread nat | Timer_Message

definition main_step :: "bool \<Rightarrow> tray_state \<Rightarrow> tray_state" where
  "main_step created s =
     (case main_thread s of
        Idle \<Rightarrow> s\<lparr>g_isRestartingExplorer := True, main_thread := AtGuard\<rparr>
      | AtGuard \<Rightarrow>
          if g_trayMode s \<and> g_watchdogThread s = None then s\<lparr>main_thread := AtCreate\<rparr>
          else s\<lparr>main_thread := Idle\<rparr>
      | AtCreate \<Rightarrow>
          if created
          then s\<lparr>watchdogs := watchdogs s @ [AtSleep],
                 main_thread := AtAssign (Some (length (watchdogs s)))\<rparr>
          else s\<lparr>main_thread := AtAssign None\<rparr>
      | AtAssign h \<Rightarrow> s\<lparr>g_watchdogThread := h, main_thread := Idle\<rparr>)"

definition WatchdogThreadProc_step :: "nat \<Rightarrow> tray_state \<Rightarrow> tray_state" where
  "WatchdogThreadProc_step t s =
     (if t < length (watchdogs s)
      then (case watchdogs s ! t of
              AtSleep \<Rightarrow> s\<lparr>watchdogs := (watchdogs s)[t := AtClearFlag]\<rparr>
            | AtClearFlag \<Rightarrow>
                s\<lparr>g_isRestartingExplorer := False,
                  watchdogs := (watchdogs s)[t := AtClearHandle]\<rparr>
            | AtClearHandle \<Rightarrow>
                s\<lparr>g_watchdogThread := None, watchdogs := (watchdogs s)[t := AtReturn]\<rparr>
            | AtReturn \<Rightarrow> s\<lparr>watchdogs := (watchdogs s)[t := Finished]\<rparr>
            | Finished \<Rightarrow> s)
      else s)"

definition WM_TIMER_step :: "tray_state \<Rightarrow> tray_state" where
  "WM_TIMER_step s =
     (if main_thread s = Idle \<and> g_trayMode s then s\<lparr>g_isRestartingExplorer := False\<rparr>
      else s)"

fun step :: "tray_state \<Rightarrow> event \<Rightarrow> tray_state" where
  "step s (Main_Thread created) = main_step created s"
| "step s (Watchdog_Thread t) = WatchdogThreadProc_step t s"
| "step s Timer_Message = WM_TIMER_step s"

definition run :: "event list \<Rightarrow> tray_state \<Rightarrow> tray_state" where
  "run schedule s = foldl step s schedule"

text \<open>The globals as initialised, with the tray mode that \<open>wWinMain\<close> settles.\<close>

definition startup :: "bool \<Rightarrow> tray_state" where
  "startup tray =
     \<lparr>g_trayMode = tray, g_isRestartingExplorer = False, g_watchdogThread = None,
      main_thread = Idle, watchdogs = []\<rparr>"

text \<open>
  A watchdog thread is alive until it has returned. It is ahead of its reset while it
  has not yet executed line 107; behind the reset it has \<open>return 0\<close> left and nothing
  else.
\<close>

fun ahead_of_reset :: "wd_pc \<Rightarrow> bool" where
  "ahead_of_reset AtSleep = True"
| "ahead_of_reset AtClearFlag = True"
| "ahead_of_reset AtClearHandle = True"
| "ahead_of_reset AtReturn = False"
| "ahead_of_reset Finished = False"

definition alive :: "tray_state \<Rightarrow> nat" where
  "alive s = length (filter (\<lambda>pc. pc \<noteq> Finished) (watchdogs s))"

definition pending :: "tray_state \<Rightarrow> nat" where
  "pending s = length (filter ahead_of_reset (watchdogs s))"

text \<open>The watchdog threads that have yet to post their message.\<close>

definition unposted :: "tray_state \<Rightarrow> nat" where
  "unposted s = length (filter (\<lambda>pc. pc = AtSleep) (watchdogs s))"

text \<open>
  The invariant behind the guard: a watchdog ahead of its reset keeps
  \<open>g_watchdogThread\<close> set whenever the main thread can read it, and the main thread is at
  \<open>CreateThread\<close> only with no watchdog ahead of its reset.
\<close>

definition guarded :: "tray_state \<Rightarrow> bool" where
  "guarded s =
     (pending s \<le> 1 \<and>
      (case main_thread s of
         Idle \<Rightarrow> pending s = 1 \<longrightarrow> g_watchdogThread s \<noteq> None
       | AtGuard \<Rightarrow> pending s = 1 \<longrightarrow> g_watchdogThread s \<noteq> None
       | AtCreate \<Rightarrow> pending s = 0
       | AtAssign h \<Rightarrow> h = None \<longrightarrow> pending s = 0))"

text \<open>
  Two toggles and, between them, the first watchdog run up to its \<open>return 0\<close>: the
  second toggle's steps end with the call of \<open>CreateThread\<close>.
\<close>

definition overlap_schedule :: "event list" where
  "overlap_schedule =
     [Main_Thread True, Main_Thread True, Main_Thread True, Main_Thread True,
      Watchdog_Thread 0, Watchdog_Thread 0, Watchdog_Thread 0,
      Main_Thread True, Main_Thread True, Main_Thread True]"

section \<open>Properties of the setting toggler\<close>

lemmas example_defs =
  example_registry_def example_key_def example_blob_def zero_stack_def

lemmas registry_defs =
  ToggleTaskbarSetting_def toggle_opened_def RegQueryValueExW_def RegSetValueExW_def
  RegOpenKeyExW_def config_key_def stored_def TASKBAR_ALWAYS_VISIBLE_def TASKBAR_AUTOHIDE_def

lemma toggle_by_config_key:
  assumes "config_key reg {KEY_READ, KEY_WRITE} = Some p"
  shows "ToggleTaskbarSetting stack reg = toggle_opened stack reg p (toggle_opens p)"
  using assms
  by (auto simp: config_key_def ToggleTaskbarSetting_def toggle_opens_def split: if_splits)

lemma toggle_opened_read:
  assumes "reg p = Some k" and "Settings k = Some (ty, blob)" and "length blob \<le> 64"
  shows "toggle_opened stack reg p calls =
     (let settings = blob @ drop (length blob) (settings_buffer stack);
          new = blob[0x08 := (if settings ! 0x08 = TASKBAR_ALWAYS_VISIBLE
                   then TASKBAR_AUTOHIDE else TASKBAR_ALWAYS_VISIBLE)]
      in \<lparr>returned = settable k,
          reg_after =
            (if settable k then reg(p \<mapsto> k\<lparr>Settings := Some (REG_BINARY, new)\<rparr>)
             else reg),
          reg_calls = calls @ [Query_Value p, Set_Value p REG_BINARY new, Close_Key p,
                          Broadcast_SettingChange]\<rparr>)"
  using assms
  by (simp add: toggle_opened_def RegQueryValueExW_def RegSetValueExW_def Let_def
      take_update_swap list_update_append list_update_beyond)

lemma open_after_toggle_opened:
  "RegOpenKeyExW (reg_after (toggle_opened stack reg p calls)) q sam = RegOpenKeyExW reg q sam"
  by (auto simp: toggle_opened_def RegQueryValueExW_def RegSetValueExW_def RegOpenKeyExW_def
      Let_def split: option.splits prod.splits if_splits)

lemma open_after_toggle:
  "RegOpenKeyExW (reg_after (ToggleTaskbarSetting stack reg)) q sam = RegOpenKeyExW reg q sam"
  by (simp add: ToggleTaskbarSetting_def open_after_toggle_opened)

lemma config_key_after_toggle:
  "config_key (reg_after (ToggleTaskbarSetting stack reg)) sam = config_key reg sam"
  by (simp add: config_key_def open_after_toggle)

lemma stored_Some:
  assumes "stored reg p = Some v"
  obtains k where "reg p = Some k" and "Settings k = Some v"
  using assms by (auto simp: stored_def split: option.splits)

lemma toggle_success:
  assumes key: "config_key reg {KEY_READ, KEY_WRITE} = Some p"
    and blob: "stored reg p = Some (ty, blob)"
    and len: "length blob \<le> 64"
    and ok: "returned (ToggleTaskbarSetting stack reg)"
  shows "stored (reg_after (ToggleTaskbarSetting stack reg)) p =
     Some (REG_BINARY,
       blob[0x08 := (if (blob @ drop (length blob) (settings_buffer stack)) ! 0x08
                        = TASKBAR_ALWAYS_VISIBLE
                     then TASKBAR_AUTOHIDE else TASKBAR_ALWAYS_VISIBLE)])"
proof -
  from blob obtain k where k: "reg p = Some k" "Settings k = Some (ty, blob)"
    by (rule stored_Some)
  have eq: "ToggleTaskbarSetting stack reg = toggle_opened stack reg p (toggle_opens p)"
    using key by (rule toggle_by_config_key)
  from ok have "settable k"
    by (simp add: eq toggle_opened_read [where reg = reg and p = p, OF k len] Let_def)
  then show ?thesis
    by (simp add: eq toggle_opened_read [where reg = reg and p = p, OF k len] Let_def stored_def)
qed

lemma toggle_success_64:
  assumes key: "config_key reg {KEY_READ, KEY_WRITE} = Some p"
    and blob: "stored reg p = Some (ty, blob)"
    and len: "length blob = 64"
    and ok: "returned (ToggleTaskbarSetting stack reg)"
  shows "stored (reg_after (ToggleTaskbarSetting stack reg)) p =
     Some (REG_BINARY,
       blob[0x08 := (if blob ! 0x08 = TASKBAR_ALWAYS_VISIBLE
                     then TASKBAR_AUTOHIDE else TASKBAR_ALWAYS_VISIBLE)])"
proof -
  have "(blob @ drop (length blob) (settings_buffer stack)) ! 0x08 = blob ! 0x08"
    using len by (simp add: nth_append)
  with toggle_success [OF key blob _ ok] len show ?thesis
    by simp
qed



text \<open>
  Claim C2, as amended. After two toggles in a row, every byte of a 64-byte blob other
  than the mode byte is what it was; the mode byte is back at its value when that value
  was \<open>0x02\<close> or \<open>0x03\<close>. From any other value the first toggle writes \<open>0x02\<close> and the
  second \<open>0x03\<close>, so the mode byte does not come back: the claim as stated, for every
  blob, fails at the mode byte \<open>0x05\<close>.
\<close>

theorem toggle_twice:
  assumes key: "config_key reg {KEY_READ, KEY_WRITE} = Some p"
    and blob: "stored reg p = Some (ty, blob)"
    and len: "length blob = 64"
    and ok1: "returned (ToggleTaskbarSetting stack1 reg)"
    and ok2: "returned (ToggleTaskbarSetting stack2
                (reg_after (ToggleTaskbarSetting stack1 reg)))"
  shows "stored (reg_after (ToggleTaskbarSetting stack2
                   (reg_after (ToggleTaskbarSetting stack1 reg)))) p =
     Some (REG_BINARY,
       if blob ! 0x08 = 0x02 \<or> blob ! 0x08 = 0x03 then blob else blob[0x08 := 0x03])"
proof -
  let ?reg1 = "reg_after (ToggleTaskbarSetting stack1 reg)"
  let ?b1 = "blob[0x08 := (if blob ! 0x08 = TASKBAR_ALWAYS_VISIBLE
                     then TASKBAR_AUTOHIDE else TASKBAR_ALWAYS_VISIBLE)]"
  have s1: "stored ?reg1 p = Some (REG_BINARY, ?b1)"
    using key blob len ok1 by (rule toggle_success_64)
  have key1: "config_key ?reg1 {KEY_READ, KEY_WRITE} = Some p"
    using key by (simp add: config_key_after_toggle)
  have len1: "length ?b1 = 64"
    using len by simp
  have s2: "stored (reg_after (ToggleTaskbarSetting stack2 ?reg1)) p =
     Some (REG_BINARY, ?b1[0x08 := (if ?b1 ! 0x08 = TASKBAR_ALWAYS_VISIBLE
                     then TASKBAR_AUTOHIDE else TASKBAR_ALWAYS_VISIBLE)])"
    using key1 s1 len1 ok2 by (rule toggle_success_64)
  have same: "blob[0x08 := blob ! 0x08] = blob"
    by simp
  show ?thesis
  proof (cases "blob ! 0x08 = 0x02 \<or> blob ! 0x08 = 0x03")
    case True
    then show ?thesis
      using s2 len same
      by (auto simp: TASKBAR_ALWAYS_VISIBLE_def TASKBAR_AUTOHIDE_def simp del: list_update_id)
  next
    case False
    then show ?thesis
      using s2 len by (simp add: TASKBAR_ALWAYS_VISIBLE_def TASKBAR_AUTOHIDE_def)
  qed
qed

theorem toggle_twice_witness:
  "stored (reg_after (ToggleTaskbarSetting zero_stack
       (reg_after (ToggleTaskbarSetting zero_stack (example_registry (example_blob 0x03))))))
     StuckRects3 = Some (REG_BINARY, example_blob 0x03)"
proof -
  have key: "config_key (example_registry (example_blob 0x03)) {KEY_READ, KEY_WRITE}
      = Some StuckRects3"
    by (simp add: registry_defs example_defs)
  have blob: "stored (example_registry (example_blob 0x03)) StuckRects3
      = Some (REG_BINARY, example_blob 0x03)"
    by (simp add: registry_defs example_defs)
  have len: "length (example_blob 0x03) = 64"
    by (simp add: example_defs)
  have ok1: "returned (ToggleTaskbarSetting zero_stack (example_registry (example_blob 0x03)))"
    by (simp add: registry_defs example_defs)
  have ok2: "returned (ToggleTaskbarSetting zero_stack
      (reg_after (ToggleTaskbarSetting zero_stack (example_registry (example_blob 0x03)))))"
    by (simp add: registry_defs example_defs)
  from toggle_twice [OF key blob len ok1 ok2] show ?thesis
    by (simp add: example_defs)
qed

theorem toggle_twice_counterexample:
  "mode_byte (example_registry (example_blob 0x05)) StuckRects3 = Some 0x05 \<and>
   mode_byte (reg_after (ToggleTaskbarSetting zero_stack
       (reg_after (ToggleTaskbarSetting zero_stack (example_registry (example_blob 0x05))))))
     StuckRects3 = Some 0x03"
  by (simp add: registry_defs example_defs mode_byte_def)

text \<open>
  Claim C3, as amended. On a blob whose mode byte is neither \<open>TASKBAR_ALWAYS_VISIBLE\<close>
  nor \<open>TASKBAR_AUTOHIDE\<close>, the toggle writes \<open>TASKBAR_ALWAYS_VISIBLE\<close> (the unrecognised
  value is toggled as \<open>TASKBAR_AUTOHIDE\<close> would be) and keeps every other byte. The claim
  as stated has the byte written as \<open>TASKBAR_AUTOHIDE\<close>, which fails at the mode byte
  \<open>0x07\<close>.
\<close>

theorem unrecognised_mode_byte:
  assumes key: "config_key reg {KEY_READ, KEY_WRITE} = Some p"
    and blob: "stored reg p = Some (ty, blob)"
    and len: "length blob = 64"
    and ok: "returned (ToggleTaskbarSetting stack reg)"
    and other: "blob ! 0x08 \<noteq> TASKBAR_ALWAYS_VISIBLE" "blob ! 0x08 \<noteq> TASKBAR_AUTOHIDE"
  shows "stored (reg_after (ToggleTaskbarSetting stack reg)) p =
     Some (REG_BINARY, blob[0x08 := TASKBAR_ALWAYS_VISIBLE])"
  using toggle_success_64 [OF key blob len ok] other
  by simp

theorem unrecognised_mode_byte_witness:
  "stored (reg_after (ToggleTaskbarSetting zero_stack (example_registry (example_blob 0x07))))
     StuckRects3 = Some (REG_BINARY, example_blob 0x02)"
proof -
  have key: "config_key (example_registry (example_blob 0x07)) {KEY_READ, KEY_WRITE}
      = Some StuckRects3"
    by (simp add: registry_defs example_defs)
  have blob: "stored (example_registry (example_blob 0x07)) StuckRects3
      = Some (REG_BINARY, example_blob 0x07)"
    by (simp add: registry_defs example_defs)
  have len: "length (example_blob 0x07) = 64"
    by (simp add: example_defs)
  have ok: "returned (ToggleTaskbarSetting zero_stack (example_registry (example_blob 0x07)))"
    by (simp add: registry_defs example_defs)
  have other: "example_blob 0x07 ! 0x08 \<noteq> TASKBAR_ALWAYS_VISIBLE"
    "example_blob 0x07 ! 0x08 \<noteq> TASKBAR_AUTOHIDE"
    by (simp_all add: registry_defs example_defs)
  from unrecognised_mode_byte [OF key blob len ok other] show ?thesis
    by (simp add: example_defs TASKBAR_ALWAYS_VISIBLE_def)
qed

theorem unrecognised_mode_byte_counterexample:
  "mode_byte (example_registry (example_blob 0x07)) StuckRects3 = Some 0x07 \<and>
   returned (ToggleTaskbarSetting zero_stack (example_registry (example_blob 0x07))) \<and>
   mode_byte (reg_after (ToggleTaskbarSetting zero_stack
       (example_registry (example_blob 0x07)))) StuckRects3 \<noteq> Some TASKBAR_AUTOHIDE"
  by (simp add: registry_defs example_defs mode_byte_def)

text \<open>
  Claim C4, as amended. The source compares no length with 64: the read fails only on a
  value that does not fit the 64-byte buffer. On a stored value longer than 64 bytes the
  toggle returns \<open>false\<close> after the read, writes nothing and leaves the registry as it
  was. A stored value of 64 bytes or fewer is read, and a value of the same length is
  written back: the claim as stated fails on a 10-byte value, which the toggle rewrites
  with its byte at \<open>0x08\<close> flipped.
\<close>

theorem wrong_length_blob:
  assumes key: "config_key reg {KEY_READ, KEY_WRITE} = Some p"
    and blob: "stored reg p = Some (ty, blob)"
  shows "if 64 < length blob
         then \<not> returned (ToggleTaskbarSetting stack reg) \<and>
              reg_after (ToggleTaskbarSetting stack reg) = reg \<and>
              reg_calls (ToggleTaskbarSetting stack reg) =
                toggle_opens p @ [Query_Value p, Close_Key p]
         else \<exists>bytes. length bytes = length blob \<and>
              reg_calls (ToggleTaskbarSetting stack reg) =
                toggle_opens p @ [Query_Value p, Set_Value p REG_BINARY bytes, Close_Key p,
                                  Broadcast_SettingChange]"
proof -
  from blob obtain k where k: "reg p = Some k" "Settings k = Some (ty, blob)"
    by (rule stored_Some)
  have eq: "ToggleTaskbarSetting stack reg = toggle_opened stack reg p (toggle_opens p)"
    using key by (rule toggle_by_config_key)
  show ?thesis
  proof (cases "64 < length blob")
    case True
    then show ?thesis
      using k by (simp add: eq toggle_opened_def RegQueryValueExW_def)
  next
    case False
    then have len: "length blob \<le> 64" by simp
    show ?thesis
      using False by (simp add: eq toggle_opened_read [where reg = reg and p = p, OF k len] Let_def)
  qed
qed

theorem wrong_length_blob_witness:
  "\<not> returned (ToggleTaskbarSetting zero_stack (example_registry (replicate 70 0x02))) \<and>
   reg_after (ToggleTaskbarSetting zero_stack (example_registry (replicate 70 0x02)))
     = example_registry (replicate 70 0x02) \<and>
   reg_calls (ToggleTaskbarSetting zero_stack (example_registry (replicate 70 0x02))) =
     [Open_Key StuckRects3 {KEY_READ, KEY_WRITE}, Query_Value StuckRects3,
      Close_Key StuckRects3]"
proof -
  have key: "config_key (example_registry (replicate 70 0x02)) {KEY_READ, KEY_WRITE}
      = Some StuckRects3"
    by (simp add: registry_defs example_defs)
  have blob: "stored (example_registry (replicate 70 0x02)) StuckRects3
      = Some (REG_BINARY, replicate 70 0x02)"
    by (simp add: registry_defs example_defs)
  from wrong_length_blob [OF key blob, of zero_stack] show ?thesis
    by (simp add: toggle_opens_def)
qed

theorem wrong_length_blob_counterexample:
  "length (take 10 (example_blob 0x02)) \<noteq> 64 \<and>
   stored (example_registry (take 10 (example_blob 0x02))) StuckRects3
     = Some (REG_BINARY, take 10 (example_blob 0x02)) \<and>
   returned (ToggleTaskbarSetting zero_stack (example_registry (take 10 (example_blob 0x02)))) \<and>
   stored (reg_after (ToggleTaskbarSetting zero_stack
       (example_registry (take 10 (example_blob 0x02))))) StuckRects3
     = Some (REG_BINARY, take 10 (example_blob 0x03))"
  by (simp add: registry_defs example_defs)

lemma toggle_opened_calls:
  "\<exists>rest. reg_calls (toggle_opened stack reg p calls) = calls @ Query_Value p # rest \<and>
     (\<forall>q sam. Open_Key q sam \<notin> set rest)"
  by (auto simp: toggle_opened_def Let_def split: prod.splits)

text \<open>
  Claim C5. The first call of a toggle opens \<open>StuckRects3\<close>; \<open>StuckRects2\<close> is opened
  next when, and only when, that open failed; no later call opens a key. The run ends
  on these opens (the early return of line 354, the spec's \<open>ConfigUnavailable\<close>) exactly
  when neither open succeeded, and then it returns \<open>false\<close> and the registry is as it was.
\<close>

theorem open_current_then_legacy:
  fixes stack reg
  defines "r \<equiv> ToggleTaskbarSetting stack reg"
    and "open3 \<equiv> RegOpenKeyExW reg StuckRects3 {KEY_READ, KEY_WRITE}"
    and "open2 \<equiv> RegOpenKeyExW reg StuckRects2 {KEY_READ, KEY_WRITE}"
  shows "\<exists>rest.
     reg_calls r =
       (if open3 = ERROR_SUCCESS then [Open_Key StuckRects3 {KEY_READ, KEY_WRITE}]
        else [Open_Key StuckRects3 {KEY_READ, KEY_WRITE},
              Open_Key StuckRects2 {KEY_READ, KEY_WRITE}]) @ rest \<and>
     (\<forall>q sam. Open_Key q sam \<notin> set rest) \<and>
     (rest = [] \<longleftrightarrow> open3 \<noteq> ERROR_SUCCESS \<and> open2 \<noteq> ERROR_SUCCESS) \<and>
     (rest = [] \<longrightarrow> \<not> returned r \<and> reg_after r = reg)"
proof (cases "open3 = ERROR_SUCCESS")
  case True
  then have eq: "r = toggle_opened stack reg StuckRects3 [Open_Key StuckRects3 {KEY_READ, KEY_WRITE}]"
    by (simp add: r_def open3_def ToggleTaskbarSetting_def)
  from toggle_opened_calls [of stack reg StuckRects3 "[Open_Key StuckRects3 {KEY_READ, KEY_WRITE}]"]
  show ?thesis
    using True by (auto simp: eq)
next
  case False
  note no3 = this
  show ?thesis
  proof (cases "open2 = ERROR_SUCCESS")
    case True
    then have eq: "r = toggle_opened stack reg StuckRects2
        [Open_Key StuckRects3 {KEY_READ, KEY_WRITE}, Open_Key StuckRects2 {KEY_READ, KEY_WRITE}]"
      using no3 by (simp add: r_def open3_def open2_def ToggleTaskbarSetting_def)
    from toggle_opened_calls [of stack reg StuckRects2
        "[Open_Key StuckRects3 {KEY_READ, KEY_WRITE}, Open_Key StuckRects2 {KEY_READ, KEY_WRITE}]"]
    show ?thesis
      using True no3 by (auto simp: eq)
  next
    case False
    then have "r = \<lparr>returned = False, reg_after = reg,
        reg_calls = [Open_Key StuckRects3 {KEY_READ, KEY_WRITE},
                     Open_Key StuckRects2 {KEY_READ, KEY_WRITE}]\<rparr>"
      using no3 by (simp add: r_def open3_def open2_def ToggleTaskbarSetting_def)
    then show ?thesis
      using False no3 by simp
  qed
qed

theorem open_current_then_legacy_witness:
  "reg_calls (ToggleTaskbarSetting zero_stack no_registry) =
     [Open_Key StuckRects3 {KEY_READ, KEY_WRITE}, Open_Key StuckRects2 {KEY_READ, KEY_WRITE}] \<and>
   \<not> returned (ToggleTaskbarSetting zero_stack no_registry) \<and>
   reg_after (ToggleTaskbarSetting zero_stack no_registry) = no_registry"
  using open_current_then_legacy [of zero_stack no_registry]
  by (auto simp: RegOpenKeyExW_def no_registry_def)

text \<open>
  Claim C10. \<open>GetCurrentTaskbarSetting\<close> returns a byte on every registry and reports no
  error: \<open>TASKBAR_ALWAYS_VISIBLE\<close> when neither key opens for reading, and when the read
  of the value fails on the key that opened; the byte at offset \<open>0x08\<close> of the buffer when
  the read succeeds, which is the stored byte at that offset for a value of 9 to 64
  bytes. Every byte value is returned on some registry.
\<close>

theorem mode_read_total:
  "(RegOpenKeyExW reg StuckRects3 {KEY_READ} \<noteq> ERROR_SUCCESS \<and>
    RegOpenKeyExW reg StuckRects2 {KEY_READ} \<noteq> ERROR_SUCCESS
      \<longrightarrow> GetCurrentTaskbarSetting stack reg = TASKBAR_ALWAYS_VISIBLE) \<and>
   (\<forall>p. config_key reg {KEY_READ} = Some p \<and>
      fst (RegQueryValueExW reg p (settings_buffer stack) 64) \<noteq> ERROR_SUCCESS
      \<longrightarrow> GetCurrentTaskbarSetting stack reg = TASKBAR_ALWAYS_VISIBLE) \<and>
   (\<forall>p settings n. config_key reg {KEY_READ} = Some p \<and>
      RegQueryValueExW reg p (settings_buffer stack) 64 = (ERROR_SUCCESS, settings, n)
      \<longrightarrow> GetCurrentTaskbarSetting stack reg = settings ! 0x08) \<and>
   (\<forall>p ty blob. config_key reg {KEY_READ} = Some p \<and> stored reg p = Some (ty, blob) \<and>
      0x08 < length blob \<and> length blob \<le> 64
      \<longrightarrow> GetCurrentTaskbarSetting stack reg = blob ! 0x08) \<and>
   (\<forall>b. GetCurrentTaskbarSetting stack (example_registry (example_blob b)) = b)"
proof -
  have get: "GetCurrentTaskbarSetting stack reg =
      (case config_key reg {KEY_READ} of
         None \<Rightarrow> TASKBAR_ALWAYS_VISIBLE
       | Some p \<Rightarrow>
           (case RegQueryValueExW reg p (settings_buffer stack) 64 of
              (result, settings, n) \<Rightarrow>
                if result \<noteq> ERROR_SUCCESS then TASKBAR_ALWAYS_VISIBLE else settings ! 0x08))"
    for reg
    by (simp add: GetCurrentTaskbarSetting_def config_key_def Let_def)
  have a: "RegOpenKeyExW reg StuckRects3 {KEY_READ} \<noteq> ERROR_SUCCESS \<and>
    RegOpenKeyExW reg StuckRects2 {KEY_READ} \<noteq> ERROR_SUCCESS
      \<longrightarrow> GetCurrentTaskbarSetting stack reg = TASKBAR_ALWAYS_VISIBLE"
    by (simp add: GetCurrentTaskbarSetting_def Let_def)
  have b: "\<forall>p. config_key reg {KEY_READ} = Some p \<and>
      fst (RegQueryValueExW reg p (settings_buffer stack) 64) \<noteq> ERROR_SUCCESS
      \<longrightarrow> GetCurrentTaskbarSetting stack reg = TASKBAR_ALWAYS_VISIBLE"
    by (auto simp: get split: prod.splits)
  have c: "\<forall>p settings n. config_key reg {KEY_READ} = Some p \<and>
      RegQueryValueExW reg p (settings_buffer stack) 64 = (ERROR_SUCCESS, settings, n)
      \<longrightarrow> GetCurrentTaskbarSetting stack reg = settings ! 0x08"
    by (auto simp: get)
  have d: "\<forall>p ty blob. config_key reg {KEY_READ} = Some p \<and> stored reg p = Some (ty, blob) \<and>
      0x08 < length blob \<and> length blob \<le> 64
      \<longrightarrow> GetCurrentTaskbarSetting stack reg = blob ! 0x08"
    by (auto simp: get RegQueryValueExW_def nth_append elim!: stored_Some)
  have e: "\<forall>b. GetCurrentTaskbarSetting stack (example_registry (example_blob b)) = b"
    by (simp add: GetCurrentTaskbarSetting_def RegOpenKeyExW_def RegQueryValueExW_def
        example_defs)
  from a b c d e show ?thesis by blast
qed

theorem mode_read_total_witness:
  "GetCurrentTaskbarSetting zero_stack no_registry = TASKBAR_ALWAYS_VISIBLE \<and>
   GetCurrentTaskbarSetting zero_stack legacy_registry = TASKBAR_ALWAYS_VISIBLE \<and>
   GetCurrentTaskbarSetting zero_stack (example_registry (example_blob 0x2A)) = 0x2A"
proof -
  note inst = mode_read_total [of no_registry zero_stack]
    mode_read_total [of legacy_registry zero_stack]
    mode_read_total [of "example_registry (example_blob 0x2A)" zero_stack]
  have "RegOpenKeyExW no_registry StuckRects3 {KEY_READ} \<noteq> ERROR_SUCCESS \<and>
    RegOpenKeyExW no_registry StuckRects2 {KEY_READ} \<noteq> ERROR_SUCCESS"
    by (simp add: RegOpenKeyExW_def no_registry_def)
  with inst(1) have a: "GetCurrentTaskbarSetting zero_stack no_registry = TASKBAR_ALWAYS_VISIBLE"
    by blast
  have "config_key legacy_registry {KEY_READ} = Some StuckRects2 \<and>
    fst (RegQueryValueExW legacy_registry StuckRects2 (settings_buffer zero_stack) 64)
      \<noteq> ERROR_SUCCESS"
    by (simp add: config_key_def RegOpenKeyExW_def RegQueryValueExW_def legacy_registry_def)
  with inst(2) have b: "GetCurrentTaskbarSetting zero_stack legacy_registry
      = TASKBAR_ALWAYS_VISIBLE"
    by blast
  have "config_key (example_registry (example_blob 0x2A)) {KEY_READ} = Some StuckRects3 \<and>
    stored (example_registry (example_blob 0x2A)) StuckRects3
      = Some (REG_BINARY, example_blob 0x2A) \<and>
    0x08 < length (example_blob 0x2A) \<and> length (example_blob 0x2A) \<le> 64"
    by (simp add: config_key_def RegOpenKeyExW_def stored_def example_defs)
  with inst(3) have "GetCurrentTaskbarSetting zero_stack (example_registry (example_blob 0x2A))
      = example_blob 0x2A ! 0x08"
    by blast
  then have c: "GetCurrentTaskbarSetting zero_stack (example_registry (example_blob 0x2A))
      = 0x2A"
    by (simp add: example_defs)
  from a b c show ?thesis by simp
qed

section \<open>Properties of the capture and the restore\<close>

lemmas restore_defs =
  RestoreExplorerWindows_def restore_loop_def restore_window_def find_restored_def
  shows_folder_def wcsicmp_eq_def towlower_def restack_def place_window_def
  SW_NORMAL_def SW_MAXIMIZE_def SW_MINIMIZE_def

lemmas window_example_defs =
  capture_window_def example_env_def example_placement_def example_relaunch_def
  restarted_desktop_def folder_window_def captured_A_def captured_B_def captured_C_def

lemma set_map_assign: "set (map_assign m key v) \<subseteq> insert (key, v) (set m)"
  by (induction m key v rule: map_assign.induct) auto

lemma sorted_map_assign:
  "sorted_wrt (<) (map fst m) \<Longrightarrow> sorted_wrt (<) (map fst (map_assign m key v))"
proof (induction m key v rule: map_assign.induct)
  case (1 key v)
  then show ?case by simp
next
  case (2 k u m key v)
  show ?case
  proof (cases "key = k \<or> key < k")
    case True
    with "2.prems" show ?thesis by auto
  next
    case False
    then have less: "k < key" by auto
    have "\<forall>a \<in> fst ` set (map_assign m key v). k < a"
    proof
      fix a
      assume "a \<in> fst ` set (map_assign m key v)"
      then have "a = key \<or> a \<in> fst ` set m"
        using set_map_assign [of m key v] by auto
      with less "2.prems" show "k < a" by auto
    qed
    moreover have "sorted_wrt (<) (map fst (map_assign m key v))"
      using False "2.prems" by (intro "2.IH") auto
    ultimately show ?thesis
      using False by auto
  qed
qed

lemma at_index_append: "at_index zs kv \<Longrightarrow> at_index (zs @ ws) kv"
  by (auto simp: at_index_def nth_append)

lemma capture_loop_sorted:
  "sorted_wrt (<) (map fst m) \<Longrightarrow> sorted_wrt (<) (map fst (capture_loop env items ws z m))"
  by (induction ws arbitrary: z m) (auto simp: sorted_map_assign split: option.splits)

lemma capture_loop_at_index:
  assumes "length pre + length ws \<le> 2 ^ 32"
    and "z = of_nat (length pre)"
    and "\<forall>kv \<in> set m. at_index pre kv"
  shows "\<forall>kv \<in> set (capture_loop env items ws z m). at_index (pre @ ws) kv"
  using assms
proof (induction ws arbitrary: pre z m)
  case Nil
  then show ?case by simp
next
  case (Cons w ws)
  let ?m' = "if visible w \<and> className w = ''CabinetWClass''
        then (case folder_of items (handle w) of
                None \<Rightarrow> m
              | Some p \<Rightarrow> map_assign m z (capture_window env w z p))
        else m"
  have small: "length pre < 2 ^ 32"
    using Cons.prems(1) by simp
  then have uz: "unat z = length pre"
    using Cons.prems(2) by (simp add: unat_of_nat take_bit_nat_eq_self)
  have new: "at_index (pre @ [w]) (z, capture_window env w z p)" for p
    by (simp add: at_index_def uz capture_window_def)
  have old: "\<forall>kv \<in> set m. at_index (pre @ [w]) kv"
    using Cons.prems(3) by (simp add: at_index_append)
  have inv: "\<forall>kv \<in> set ?m'. at_index (pre @ [w]) kv"
    using old new set_map_assign [of m z] by (auto split: option.splits)
  have "\<forall>kv \<in> set (capture_loop env items ws (z + 1) ?m'). at_index ((pre @ [w]) @ ws) kv"
  proof (rule Cons.IH)
    show "length (pre @ [w]) + length ws \<le> 2 ^ 32"
      using Cons.prems(1) by simp
    show "z + 1 = of_nat (length (pre @ [w]))"
      using Cons.prems(2) by simp
    show "\<forall>kv \<in> set ?m'. at_index (pre @ [w]) kv"
      by (rule inv)
  qed
  then show ?case by simp
qed

lemma captured_in_zorder:
  assumes "length (zorder d) \<le> 2 ^ 32"
  shows "sorted_wrt (\<lambda>a b. zOrder a < zOrder b) (GetOpenExplorerWindows env d) \<and>
    (\<forall>w \<in> set (GetOpenExplorerWindows env d).
       unat (zOrder w) < length (zorder d) \<and> handle (zorder d ! unat (zOrder w)) = hwnd w)"
proof -
  let ?m = "capture_loop env (shellWindows d) (zorder d) 0 []"
  have idx: "\<forall>kv \<in> set ?m. at_index (zorder d) kv"
    using capture_loop_at_index [of "[]" "zorder d" 0 "[]" env "shellWindows d"] assms
    by simp
  have srt: "sorted_wrt (<) (map fst ?m)"
    by (rule capture_loop_sorted) simp
  have keys: "map fst ?m = map zOrder (map snd ?m)"
    using idx by (auto simp: at_index_def)
  have "sorted_wrt (<) (map zOrder (map snd ?m))"
    using srt keys by simp
  then have "sorted_wrt (\<lambda>a b. zOrder a < zOrder b) (map snd ?m)"
    by (simp add: sorted_wrt_map)
  moreover have "\<forall>w \<in> set (map snd ?m).
       unat (zOrder w) < length (zorder d) \<and> handle (zorder d ! unat (zOrder w)) = hwnd w"
    using idx by (auto simp: at_index_def)
  ultimately show ?thesis
    by (simp add: GetOpenExplorerWindows_def)
qed

lemma restore_loop_Nil: "restore_loop relaunch [] st = st"
  by (simp add: restore_loop_def)

lemma restore_loop_Cons:
  "restore_loop relaunch (w # ws) st = restore_window relaunch w (restore_loop relaunch ws st)"
  by (simp add: restore_loop_def)


lemma restore_window_resolved:
  assumes "path w \<noteq> []"
    and "find_restored (relaunch (path w) (desk st)) (path w) = Some h"
  shows "restore_window relaunch w st =
     \<lparr>desk = (relaunch (path w) (desk st))\<lparr>zorder :=
         restack h (if showCmd (placement w) = SW_MINIMIZE then HWND_BOTTOM else HWND_TOP)
           (zorder (relaunch (path w) (desk st)))\<rparr>,
      openedPaths = (openedPaths st)(path w \<mapsto> h),
      gui_calls = gui_calls st @ ShellExecuteW_open (path w) # place_window w h\<rparr>"
  using assms by (simp add: restore_window_def Let_def)


lemma find_restored_Some:
  assumes "find_restored d target = Some h"
  shows "\<exists>w. find (\<lambda>w. handle w = h) (zorder d) = Some w \<and> handle w = h"
    and "shows_folder (shellWindows d) h target"
proof -
  from assms obtain w where w: "find (\<lambda>w. className w = ''CabinetWClass'' \<and> visible w \<and>
                  shows_folder (shellWindows d) (handle w) target) (zorder d) = Some w"
      and h: "handle w = h"
    by (auto simp: find_restored_def)
  from w have "w \<in> set (zorder d)" and sf: "shows_folder (shellWindows d) (handle w) target"
    by (auto simp: find_Some_iff)
  with h have "\<exists>x \<in> set (zorder d). handle x = h" by blast
  then obtain w' where "find (\<lambda>w. handle w = h) (zorder d) = Some w'"
    by (cases "find (\<lambda>w. handle w = h) (zorder d)") (auto simp: find_None_iff)
  moreover from this have "handle w' = h"
    by (auto simp: find_Some_iff)
  ultimately show "\<exists>w. find (\<lambda>w. handle w = h) (zorder d) = Some w \<and> handle w = h"
    by blast
  from sf h show "shows_folder (shellWindows d) h target" by simp
qed

lemma restore_window_top:
  assumes "path w \<noteq> []"
    and "find_restored (relaunch (path w) (desk st)) (path w) = Some h"
    and "showCmd (placement w) \<noteq> SW_MINIMIZE"
  shows "\<exists>t rest. zorder (desk (restore_window relaunch w st)) = t # rest \<and> handle t = h"
    and "shows_folder (shellWindows (desk (restore_window relaunch w st))) h (path w)"
    and "openedPaths (restore_window relaunch w st) (path w) = Some h"
  using assms find_restored_Some [OF assms(2)]
  by (auto simp: restore_window_def Let_def restack_def)

lemma restacks_append: "restacks (as @ bs) = restacks as @ restacks bs"
  by (induction as rule: restacks.induct) simp_all

lemma restacks_place_window:
  "restacks (place_window w h) =
     [(h, if showCmd (placement w) = SW_MINIMIZE then HWND_BOTTOM else HWND_TOP)]"
  by (simp add: place_window_def)

text \<open>
  Claim C6. Three folder windows are captured, \<open>wC\<close>, \<open>wB\<close>, \<open>wA\<close> in the order of the
  vector. Then \<open>wC\<close> was in front of \<open>wB\<close> and \<open>wB\<close> in front of \<open>wA\<close> on the desktop at
  capture time, each at the position its \<open>zOrder\<close> names. Let the shell answer every
  request for one of the three paths, on whatever desktop, with a desktop that has a
  visible folder window showing that path, and let none of the three be restored
  minimized. Then the restore restacks three windows to the top, the one found for
  \<open>wA\<close> first and the one found for \<open>wC\<close> last; and the front window of the desktop at
  the end is that last one, the window recorded for the path of \<open>wC\<close>, and it shows
  that folder.
\<close>

theorem restore_front_window_on_top:
  fixes relaunch wA wB wC d1
  defines "r \<equiv> RestoreExplorerWindows relaunch [wC, wB, wA] d1"
  assumes cap: "GetOpenExplorerWindows env d0 = [wC, wB, wA]"
    and size: "length (zorder d0) \<le> 2 ^ 32"
    and nonempty: "\<forall>w \<in> set [wC, wB, wA]. path w \<noteq> []"
    and resolve: "\<forall>w \<in> set [wC, wB, wA]. \<forall>d.
        find_restored (relaunch (path w) d) (path w) \<noteq> None"
    and tops: "\<forall>w \<in> set [wC, wB, wA]. showCmd (placement w) \<noteq> SW_MINIMIZE"
  shows "zOrder wC < zOrder wB \<and> zOrder wB < zOrder wA \<and>
    (\<forall>w \<in> set [wC, wB, wA].
       unat (zOrder w) < length (zorder d0) \<and> handle (zorder d0 ! unat (zOrder w)) = hwnd w) \<and>
    (\<exists>t rest hA hB.
       zorder (desk r) = t # rest \<and>
       shows_folder (shellWindows (desk r)) (handle t) (path wC) \<and>
       openedPaths r (path wC) = Some (handle t) \<and>
       restacks (gui_calls r) = [(hA, HWND_TOP), (hB, HWND_TOP), (handle t, HWND_TOP)])"
proof -
  from captured_in_zorder [OF size, of env]
  have order: "zOrder wC < zOrder wB \<and> zOrder wB < zOrder wA"
    and at: "\<forall>w \<in> set [wC, wB, wA].
       unat (zOrder w) < length (zorder d0) \<and> handle (zorder d0 ! unat (zOrder w)) = hwnd w"
    by (simp_all add: cap)
  let ?init = "\<lparr>desk = d1, openedPaths = Map.empty, gui_calls = []\<rparr>"
  let ?stA = "restore_window relaunch wA ?init"
  let ?stB = "restore_window relaunch wB ?stA"
  have final: "r = restore_window relaunch wC ?stB"
    by (simp add: r_def RestoreExplorerWindows_def restore_loop_Cons restore_loop_Nil)
  from resolve obtain hA where hA:
    "find_restored (relaunch (path wA) (desk ?init)) (path wA) = Some hA"
    by fastforce
  from resolve obtain hB where hB:
    "find_restored (relaunch (path wB) (desk ?stA)) (path wB) = Some hB"
    by fastforce
  from resolve obtain hC where hC:
    "find_restored (relaunch (path wC) (desk ?stB)) (path wC) = Some hC"
    by fastforce
  from nonempty have ne: "path wA \<noteq> []" "path wB \<noteq> []" "path wC \<noteq> []"
    by simp_all
  from tops have up: "showCmd (placement wA) \<noteq> SW_MINIMIZE"
    "showCmd (placement wB) \<noteq> SW_MINIMIZE" "showCmd (placement wC) \<noteq> SW_MINIMIZE"
    by simp_all
  have callsA: "gui_calls ?stA = ShellExecuteW_open (path wA) # place_window wA hA"
    by (simp add: restore_window_resolved [where relaunch = relaunch, OF ne(1) hA])
  have callsB: "gui_calls ?stB =
      gui_calls ?stA @ ShellExecuteW_open (path wB) # place_window wB hB"
    by (simp add: restore_window_resolved [where relaunch = relaunch, OF ne(2) hB])
  have callsC: "gui_calls r =
      gui_calls ?stB @ ShellExecuteW_open (path wC) # place_window wC hC"
    unfolding final
    by (simp add: restore_window_resolved [where relaunch = relaunch, OF ne(3) hC])
  have stacks: "restacks (gui_calls r) = [(hA, HWND_TOP), (hB, HWND_TOP), (hC, HWND_TOP)]"
    using up by (simp add: callsC callsB callsA restacks_append restacks_place_window)
  note top = restore_window_top [where relaunch = relaunch and st = ?stB, OF ne(3) hC up(3)]
  from top(1) obtain t rest where t: "zorder (desk r) = t # rest" "handle t = hC"
    unfolding final by blast
  have "shows_folder (shellWindows (desk r)) (handle t) (path wC)"
    using top(2) t(2) unfolding final by simp
  moreover have "openedPaths r (path wC) = Some (handle t)"
    using top(3) t(2) unfolding final by simp
  moreover have "restacks (gui_calls r) =
      [(hA, HWND_TOP), (hB, HWND_TOP), (handle t, HWND_TOP)]"
    using stacks t(2) by simp
  ultimately show ?thesis
    using order at t(1) by blast
qed

lemma example_relaunch_resolves:
  assumes "map towlower (map towlower p) = map towlower p"
  shows "find_restored (example_relaunch p d) p \<noteq> None"
proof -
  let ?new = "folder_window (100 + length (zorder d))"
  have "shows_folder (shellWindows (example_relaunch p d)) (handle ?new) p"
    using assms
    by (simp add: shows_folder_def example_relaunch_def folder_window_def wcsicmp_eq_def)
  then have "\<exists>w \<in> set (zorder (example_relaunch p d)).
      className w = ''CabinetWClass'' \<and> visible w \<and>
      shows_folder (shellWindows (example_relaunch p d)) (handle w) p"
    by (auto simp: example_relaunch_def folder_window_def)
  then show ?thesis
    by (auto simp: find_restored_def find_None_iff)
qed

theorem restore_front_window_on_top_witness:
  "GetOpenExplorerWindows example_env example_desktop = [captured_C, captured_B, captured_A] \<and>
   map handle (zorder (desk (RestoreExplorerWindows example_relaunch
        [captured_C, captured_B, captured_A] restarted_desktop))) = [103, 102, 101, 7] \<and>
   (\<exists>t rest hA hB.
      zorder (desk (RestoreExplorerWindows example_relaunch
        [captured_C, captured_B, captured_A] restarted_desktop)) = t # rest \<and>
      shows_folder (shellWindows (desk (RestoreExplorerWindows example_relaunch
        [captured_C, captured_B, captured_A] restarted_desktop))) (handle t) (path captured_C) \<and>
      openedPaths (RestoreExplorerWindows example_relaunch
        [captured_C, captured_B, captured_A] restarted_desktop) (path captured_C)
        = Some (handle t) \<and>
      restacks (gui_calls (RestoreExplorerWindows example_relaunch
        [captured_C, captured_B, captured_A] restarted_desktop))
        = [(hA, HWND_TOP), (hB, HWND_TOP), (handle t, HWND_TOP)])"
proof -
  have cap: "GetOpenExplorerWindows example_env example_desktop
      = [captured_C, captured_B, captured_A]"
    by (simp add: GetOpenExplorerWindows_def folder_of_def example_desktop_def
        window_example_defs SW_NORMAL_def)
  have size: "length (zorder example_desktop) \<le> 2 ^ 32"
    by (simp add: example_desktop_def)
  have paths: "path captured_A = ''C:/A''" "path captured_B = ''C:/B''"
      "path captured_C = ''C:/C''"
    by (simp_all add: window_example_defs)
  have nonempty: "\<forall>w \<in> set [captured_C, captured_B, captured_A]. path w \<noteq> []"
    by (simp add: paths)
  have shown: "find_restored (example_relaunch p d) p \<noteq> None"
    if "p = ''C:/A'' \<or> p = ''C:/B'' \<or> p = ''C:/C''" for p d
    using that by (intro example_relaunch_resolves) (auto simp: towlower_def)
  have resolve: "\<forall>w \<in> set [captured_C, captured_B, captured_A]. \<forall>d.
      find_restored (example_relaunch (path w) d) (path w) \<noteq> None"
    using shown by (simp add: paths del: not_None_eq)
  have tops: "\<forall>w \<in> set [captured_C, captured_B, captured_A].
      showCmd (placement w) \<noteq> SW_MINIMIZE"
    by (simp add: window_example_defs SW_NORMAL_def SW_MINIMIZE_def)
  have order: "map handle (zorder (desk (RestoreExplorerWindows example_relaunch
        [captured_C, captured_B, captured_A] restarted_desktop))) = [103, 102, 101, 7]"
    by (simp add: restore_defs window_example_defs)
  from restore_front_window_on_top [where relaunch = example_relaunch
      and ?d1.0 = restarted_desktop, OF cap size nonempty resolve tops] cap order
  show ?thesis by blast
qed












section \<open>Properties of the kill step\<close>

lemma terminate_loop_sets:
  "set (fst (terminate_loop our op snapshot)) =
     {th32ProcessID e | e. e \<in> set snapshot \<and> szExeFile e = ''explorer.exe'' \<and>
        th32ProcessID e \<noteq> our} \<and>
   set (snd (terminate_loop our op snapshot)) =
     {th32ProcessID e | e. e \<in> set snapshot \<and> szExeFile e = ''explorer.exe'' \<and>
        th32ProcessID e \<noteq> our \<and> op (th32ProcessID e)}"
  by (induction snapshot) (auto split: prod.splits)

text \<open>
  Claim C8. The loop goes through every entry of the snapshot and tries to open, for
  termination, exactly the processes named \<open>explorer.exe\<close> other than the caller;
  \<open>TerminateProcess\<close> is called on those of them that could be opened. The caller's own
  process id is never among the processes opened or terminated.
\<close>

theorem kill_spares_caller:
  "ourProcessId \<notin> set (attempted (KillExplorerProcess windows ourProcessId OpenProcess snapshot)) \<and>
   ourProcessId \<notin> set (terminated (KillExplorerProcess windows ourProcessId OpenProcess snapshot)) \<and>
   set (attempted (KillExplorerProcess windows ourProcessId OpenProcess snapshot)) =
     {th32ProcessID e | e. e \<in> set snapshot \<and> szExeFile e = ''explorer.exe'' \<and>
        th32ProcessID e \<noteq> ourProcessId} \<and>
   set (terminated (KillExplorerProcess windows ourProcessId OpenProcess snapshot)) =
     {p \<in> set (attempted (KillExplorerProcess windows ourProcessId OpenProcess snapshot)).
        OpenProcess p}"
  using terminate_loop_sets [of ourProcessId OpenProcess snapshot]
  by (auto simp: KillExplorerProcess_def)

theorem kill_spares_caller_witness:
  "attempted (KillExplorerProcess [] 3000 (\<lambda>p. p \<noteq> 4000) example_snapshot) = [1200, 4000] \<and>
   terminated (KillExplorerProcess [] 3000 (\<lambda>p. p \<noteq> 4000) example_snapshot) = [1200] \<and>
   3000 \<notin> set (terminated (KillExplorerProcess [] 3000 (\<lambda>p. p \<noteq> 4000) example_snapshot))"
proof -
  have "attempted (KillExplorerProcess [] 3000 (\<lambda>p. p \<noteq> 4000) example_snapshot) = [1200, 4000]"
    by (simp add: KillExplorerProcess_def example_snapshot_def)
  moreover have "terminated (KillExplorerProcess [] 3000 (\<lambda>p. p \<noteq> 4000) example_snapshot) = [1200]"
    by (simp add: KillExplorerProcess_def example_snapshot_def)
  moreover note kill_spares_caller [of 3000 "[]" "\<lambda>p. p \<noteq> 4000" example_snapshot]
  ultimately show ?thesis by blast
qed

section \<open>Properties of the watchdog guard\<close>

lemma count_update:
  assumes "t < length pcs"
  shows "length (filter P (pcs[t := pc'])) + (if P (pcs ! t) then 1 else 0) =
     length (filter P pcs) + (if P pc' then 1 else 0)"
proof -
  have pcs: "pcs = take t pcs @ pcs ! t # drop (Suc t) pcs"
    using assms by (rule id_take_nth_drop)
  have upd: "pcs[t := pc'] = take t pcs @ pc' # drop (Suc t) pcs"
    using assms by (rule upd_conv_take_nth_drop)
  have "length (filter P pcs) =
      length (filter P (take t pcs)) + (if P (pcs ! t) then 1 else 0) +
      length (filter P (drop (Suc t) pcs))"
    by (subst pcs) simp
  moreover have "length (filter P (pcs[t := pc'])) =
      length (filter P (take t pcs)) + (if P pc' then 1 else 0) +
      length (filter P (drop (Suc t) pcs))"
    by (simp add: upd)
  ultimately show ?thesis by simp
qed

lemma pending_watchdog_step:
  assumes "t < length (watchdogs s)"
  shows "pending (WatchdogThreadProc_step t s) =
     (if watchdogs s ! t = AtClearHandle then pending s - 1 else pending s)"
    and "watchdogs s ! t = AtClearHandle \<Longrightarrow> 0 < pending s"
proof -
  note count = count_update [OF assms, of ahead_of_reset]
  show "pending (WatchdogThreadProc_step t s) =
     (if watchdogs s ! t = AtClearHandle then pending s - 1 else pending s)"
    using assms count [of AtClearFlag] count [of AtClearHandle] count [of AtReturn]
      count [of Finished]
    by (cases "watchdogs s ! t") (simp_all add: WatchdogThreadProc_step_def pending_def)
  show "0 < pending s" if "watchdogs s ! t = AtClearHandle"
    using that count [of AtReturn] by (auto simp: pending_def)
qed

lemma guarded_main_step: "guarded s \<Longrightarrow> guarded (main_step created s)"
  by (cases "main_thread s") (auto simp: guarded_def main_step_def pending_def le_Suc_eq)

lemma guarded_watchdog_step:
  assumes "guarded s"
  shows "guarded (WatchdogThreadProc_step t s)"
proof (cases "t < length (watchdogs s)")
  case False
  with assms show ?thesis
    by (simp add: WatchdogThreadProc_step_def)
next
  case True
  note count = pending_watchdog_step [OF True]
  have main: "main_thread (WatchdogThreadProc_step t s) = main_thread s"
    using True by (cases "watchdogs s ! t") (simp_all add: WatchdogThreadProc_step_def)
  show ?thesis
  proof (cases "watchdogs s ! t = AtClearHandle")
    case True
    with count assms have "pending (WatchdogThreadProc_step t s) = 0"
      by (auto simp: guarded_def)
    then show ?thesis
      by (cases "main_thread s") (simp_all add: guarded_def main)
  next
    case False
    then have handle: "g_watchdogThread (WatchdogThreadProc_step t s) = g_watchdogThread s"
      using True by (cases "watchdogs s ! t") (simp_all add: WatchdogThreadProc_step_def)
    from False count(1) have "pending (WatchdogThreadProc_step t s) = pending s"
      by simp
    with assms show ?thesis
      by (cases "main_thread s") (simp_all add: guarded_def main handle)
  qed
qed

lemma guarded_timer_step: "guarded s \<Longrightarrow> guarded (WM_TIMER_step s)"
  by (cases "main_thread s") (auto simp: guarded_def WM_TIMER_step_def pending_def)

lemma guarded_step: "guarded s \<Longrightarrow> guarded (step s e)"
  by (cases e) (simp_all add: guarded_main_step guarded_watchdog_step guarded_timer_step)

lemma guarded_run: "guarded s \<Longrightarrow> guarded (run schedule s)"
  unfolding run_def by (induction schedule arbitrary: s) (simp_all add: guarded_step)

lemma guarded_startup: "guarded (startup tray)"
  by (simp add: guarded_def startup_def pending_def)

lemma unposted_le_pending: "unposted s \<le> pending s"
proof -
  have "length (filter (\<lambda>pc. pc = AtSleep) pcs) \<le> length (filter ahead_of_reset pcs)" for pcs
    by (induction pcs) auto
  then show ?thesis
    by (simp add: unposted_def pending_def)
qed

text \<open>
  Claim C9, as amended. Under every interleaving of the main thread and the watchdog
  threads, at most one watchdog thread is ahead of its reset of \<open>g_watchdogThread\<close>
  (line 107), so at most one has yet to post its message, and the main thread stands at
  \<open>CreateThread\<close> only when none is: a toggle made while a watchdog has not reached its
  reset creates no second one. The claim as stated, that a second watchdog is not
  created while the first has not completed, fails: behind its reset the first still has
  \<open>return 0\<close> to run, the guard of line 126 is open, and a toggle made then creates a
  second thread while the first is alive.
\<close>

theorem one_watchdog_at_a_time:
  "pending (run schedule (startup tray)) \<le> 1 \<and>
   unposted (run schedule (startup tray)) \<le> 1 \<and>
   (main_thread (run schedule (startup tray)) = AtCreate
      \<longrightarrow> pending (run schedule (startup tray)) = 0)"
proof -
  have "guarded (run schedule (startup tray))"
    using guarded_startup by (rule guarded_run)
  moreover have "unposted (run schedule (startup tray)) \<le> pending (run schedule (startup tray))"
    by (rule unposted_le_pending)
  ultimately show ?thesis
    by (auto simp: guarded_def)
qed

theorem one_watchdog_at_a_time_witness:
  "main_thread (run [Main_Thread True, Main_Thread True] (startup True)) = AtCreate \<and>
   pending (run [Main_Thread True, Main_Thread True] (startup True)) = 0 \<and>
   watchdogs (run overlap_schedule (startup True)) = [AtReturn, AtSleep] \<and>
   pending (run overlap_schedule (startup True)) = 1"
proof -
  have at: "main_thread (run [Main_Thread True, Main_Thread True] (startup True)) = AtCreate"
    by (simp add: run_def startup_def main_step_def)
  with one_watchdog_at_a_time [of "[Main_Thread True, Main_Thread True]" True]
  have none: "pending (run [Main_Thread True, Main_Thread True] (startup True)) = 0"
    by blast
  have two: "watchdogs (run overlap_schedule (startup True)) = [AtReturn, AtSleep]"
    by (simp add: overlap_schedule_def run_def startup_def main_step_def
        WatchdogThreadProc_step_def)
  then have "pending (run overlap_schedule (startup True)) = 1"
    by (simp add: pending_def)
  with at none two show ?thesis by blast
qed

theorem one_watchdog_at_a_time_counterexample:
  "alive (run (butlast overlap_schedule) (startup True)) = 1 \<and>
   main_thread (run (butlast overlap_schedule) (startup True)) = AtCreate \<and>
   alive (run overlap_schedule (startup True)) = 2"
  by (simp add: overlap_schedule_def run_def startup_def main_step_def
      WatchdogThreadProc_step_def alive_def)

end
